theory Spec2Isabelle
  imports Main
begin

section \<open>Python strings\<close>

text \<open>
  Python \<open>str\<close> values are modelled as \<open>string\<close>; the case operations below are
  those of Python on ASCII letters, and \<open>py_isspace\<close> is \<open>str.isspace\<close> on the code
  points below 256. Every other character is left as it is and counts as uncased; Python
  also changes the case of letters beyond ASCII, so the model is that of the source on
  texts whose letters are ASCII, as the names and codes of the language table are.
\<close>

definition upper_letters :: string where
  "upper_letters = ''ABCDEFGHIJKLMNOPQRSTUVWXYZ''"

definition lower_letters :: string where
  "lower_letters = ''abcdefghijklmnopqrstuvwxyz''"

definition is_upper :: "char \<Rightarrow> bool" where
  "is_upper c = (c \<in> set upper_letters)"

definition is_lower :: "char \<Rightarrow> bool" where
  "is_lower c = (c \<in> set lower_letters)"

definition lower_char :: "char \<Rightarrow> char" where
  "lower_char c = (case map_of (zip upper_letters lower_letters) c of Some d \<Rightarrow> d | None \<Rightarrow> c)"

definition upper_char :: "char \<Rightarrow> char" where
  "upper_char c = (case map_of (zip lower_letters upper_letters) c of Some d \<Rightarrow> d | None \<Rightarrow> c)"

definition py_lower :: "string \<Rightarrow> string" where
  "py_lower s = map lower_char s"

definition py_upper :: "string \<Rightarrow> string" where
  "py_upper s = map upper_char s"

text \<open>\<open>str.title\<close>: a letter that follows a cased letter is lowered, any other letter is raised.\<close>

fun title_from :: "bool \<Rightarrow> string \<Rightarrow> string" where
  "title_from previous_is_cased [] = []"
| "title_from previous_is_cased (c # cs) =
     (if previous_is_cased then lower_char c else upper_char c)
       # title_from (is_upper c \<or> is_lower c) cs"

definition py_title :: "string \<Rightarrow> string" where
  "py_title s = title_from False s"

definition py_isspace :: "char \<Rightarrow> bool" where
  "py_isspace c = (c \<in> set [CHR 0x09, CHR 0x0A, CHR 0x0B, CHR 0x0C, CHR 0x0D,
                             CHR 0x1C, CHR 0x1D, CHR 0x1E, CHR 0x1F, CHR 0x20,
                             CHR 0x85, CHR 0xA0])"

definition py_rstrip :: "string \<Rightarrow> string" where
  "py_rstrip s = rev (dropWhile py_isspace (rev s))"

definition py_strip :: "string \<Rightarrow> string" where
  "py_strip s = rev (dropWhile py_isspace (rev (dropWhile py_isspace s)))"

text \<open>\<open>sep.join(parts)\<close>.\<close>

fun py_join :: "string \<Rightarrow> string list \<Rightarrow> string" where
  "py_join sep [] = []"
| "py_join sep [x] = x"
| "py_join sep (x # y # ys) = x @ sep @ py_join sep (y # ys)"

text \<open>\<open>str(n)\<close> for an integer.\<close>

definition digit_char :: "nat \<Rightarrow> char" where
  "digit_char d = ''0123456789'' ! (d mod 10)"

fun str_nat :: "nat \<Rightarrow> string" where
  "str_nat n = (if n < 10 then [digit_char n] else str_nat (n div 10) @ [digit_char (n mod 10)])"

declare str_nat.simps [simp del]

definition str_int :: "int \<Rightarrow> string" where
  "str_int i = (if i < 0 then CHR ''-'' # str_nat (nat (- i)) else str_nat (nat i))"

section \<open>Exceptions, actions on the chat platform, results of a command handler\<close>

text \<open>
  The exception classes the handlers distinguish. \<open>NonException\<close> stands for the
  classes below \<open>BaseException\<close> that \<open>except Exception\<close> does not catch.
\<close>

datatype exc_class = NameError | ValueError | AttributeError | TypeError | ZeroDivisionError
  | IndexError | SyntaxError | OtherException | NonException

datatype pyexc = PyExc exc_class string

fun exc_class_of :: "pyexc \<Rightarrow> exc_class" where
  "exc_class_of (PyExc k m) = k"

fun exc_str :: "pyexc \<Rightarrow> string" where
  "exc_str (PyExc k m) = m"

datatype emoji = Back | Forward | OtherEmoji string

text \<open>
  What a handler does to the outside world, in order: \<open>ctx.message.reply\<close>, \<open>ctx.send\<close>,
  \<open>message.edit\<close>, \<open>message.add_reaction\<close>, \<open>message.remove_reaction\<close>, \<open>print\<close>,
  \<open>ctx.channel.fetch_message\<close>, \<open>single_detection\<close> and \<open>GoogleTranslator(...).translate\<close>.
  Sending to the platform is taken to succeed.
\<close>

datatype action = Reply string | Send string | Edit string | AddReaction emoji
  | RemoveReaction emoji nat | Print string | FetchMessage nat | Detect string
  | Translate string string string

text \<open>
  A handler returns after its actions (\<open>Done\<close>), or an exception leaves it after them
  (\<open>Escaped\<close>), or it has done them and waits for the next event (\<open>Pending\<close>).
  \<open>Outside\<close> says that the run leaves the part of Python that is modelled here; nothing
  is stated about such a run.
\<close>

datatype result = Done "action list" | Escaped "action list" pyexc | Pending "action list"
  | Outside

section \<open>Module constants\<close>

definition MAX_MESSAGE_LENGTH :: nat where
  "MAX_MESSAGE_LENGTH = 2000"

section \<open>\<open>return_message\<close>\<close>

text \<open>The \<open>for i in range(MAX_MESSAGE_LENGTH, len(content), MAX_MESSAGE_LENGTH)\<close> loop, from \<open>i\<close>.\<close>

function send_chunks :: "string \<Rightarrow> nat \<Rightarrow> action list" where
  "send_chunks content i =
     (if i < length content
      then Send (take MAX_MESSAGE_LENGTH (drop i content)) # send_chunks content (i + MAX_MESSAGE_LENGTH)
      else [])"
  by pat_completeness auto
termination
  by (relation "measure (\<lambda>(content, i). length content - i)") (auto simp: MAX_MESSAGE_LENGTH_def)

declare send_chunks.simps [simp del]

definition return_message :: "string \<Rightarrow> action list" where
  "return_message content =
     Reply (take MAX_MESSAGE_LENGTH content) # send_chunks content MAX_MESSAGE_LENGTH"

text \<open>For stating properties: the text of a message action, the actions of a result.\<close>

fun sent_text :: "action \<Rightarrow> string" where
  "sent_text (Reply s) = s"
| "sent_text (Send s) = s"
| "sent_text (Edit s) = s"
| "sent_text _ = []"

fun actions_of :: "result \<Rightarrow> action list" where
  "actions_of (Done acts) = acts"
| "actions_of (Escaped acts e) = acts"
| "actions_of (Pending acts) = acts"
| "actions_of Outside = []"

section \<open>\<open>key_from_value\<close> and \<open>get_lang_code\<close>\<close>

text \<open>
  \<open>LANGUAGES\<close> is the dictionary that \<open>GoogleTranslator().get_supported_languages(as_dict=True)\<close>
  returns when the module is loaded: display name to code, in the dictionary's order. It is
  a parameter of everything that reads it.
\<close>

type_synonym languages = "(string \<times> string) list"

fun key_from_value :: "('k \<times> 'v) list \<Rightarrow> 'v \<Rightarrow> 'k option" where
  "key_from_value [] v = None"
| "key_from_value (item # items) v =
     (if v = snd item then Some (fst item) else key_from_value items v)"

text \<open>The loop \<open>for l in LANGUAGES.items(): if dest_lang in l: return l[1]\<close>.\<close>

fun find_lang :: "languages \<Rightarrow> string \<Rightarrow> string option" where
  "find_lang [] dest_lang = None"
| "find_lang (l # ls) dest_lang =
     (if dest_lang = fst l \<or> dest_lang = snd l then Some (snd l) else find_lang ls dest_lang)"

definition get_lang_code :: "languages \<Rightarrow> string \<Rightarrow> string option" where
  "get_lang_code langs dest_lang =
     (let dest_lang = py_lower dest_lang in
      case find_lang langs dest_lang of
        Some code \<Rightarrow> Some code
      | None \<Rightarrow>
          if dest_lang = ''chinese'' \<or> dest_lang = ''zh'' then Some ''zh-CN''
          else if dest_lang = ''zh-tw'' then Some ''zh-TW''
          else if dest_lang = ''zh-cn'' then Some ''zh-CN''
          else None)"

text \<open>A few entries of the table, in its order, for concrete evaluations.\<close>

definition sample_languages :: languages where
  "sample_languages =
     [(''chinese (simplified)'', ''zh-CN''), (''chinese (traditional)'', ''zh-TW''),
      (''english'', ''en''), (''french'', ''fr''), (''spanish'', ''es'')]"

section \<open>The translate command \<open>t\<close>\<close>

subsection \<open>The substitution that removes the annotation of an earlier translation\<close>

text \<open>\<open>after_prefix p s\<close> is what follows \<open>p\<close> in \<open>s\<close> when \<open>s\<close> starts with \<open>p\<close>.\<close>

fun after_prefix :: "string \<Rightarrow> string \<Rightarrow> string option" where
  "after_prefix [] s = Some s"
| "after_prefix (p # ps) [] = None"
| "after_prefix (p # ps) (c # cs) = (if p = c then after_prefix ps cs else None)"

text \<open>
  \<open>keys = "|".join(re.escape(key.title()) for key in LANGUAGES)\<close>: the alternatives of
  \<open>(?:keys)\<close>, each matched literally, in the order of the dictionary. For an empty
  dictionary \<open>keys\<close> is the empty string, whose only alternative is the empty one.
\<close>

definition annotation_keys :: "languages \<Rightarrow> string list" where
  "annotation_keys langs =
     (if langs = [] then [[]] else map (\<lambda>item. py_title (fst item)) langs)"

text \<open>
  The pattern \<open>\s*\((?:keys) -> (?:keys)\)\s*\<close> tried at the start of a text, with the
  result the backtracking matcher finds first; the value is the text after the match.
  Neither \<open>\s*\<close> can usefully give characters back: the first is followed by a bracket and
  the second ends the pattern. No flag is passed to \<open>re.sub\<close>, so letters match exactly.
\<close>

fun match_dest :: "string list \<Rightarrow> string \<Rightarrow> string option" where
  "match_dest [] s = None"
| "match_dest (k # ks) s =
     (case after_prefix (k @ '')'') s of
        Some rest \<Rightarrow> Some (dropWhile py_isspace rest)
      | None \<Rightarrow> match_dest ks s)"

fun match_source :: "string list \<Rightarrow> string list \<Rightarrow> string \<Rightarrow> string option" where
  "match_source keys [] s = None"
| "match_source keys (k # ks) s =
     (case after_prefix (k @ '' -> '') s of
        Some rest \<Rightarrow>
          (case match_dest keys rest of
             Some rest' \<Rightarrow> Some rest'
           | None \<Rightarrow> match_source keys ks s)
      | None \<Rightarrow> match_source keys ks s)"

definition match_annotation :: "string list \<Rightarrow> string \<Rightarrow> string option" where
  "match_annotation keys s =
     (case dropWhile py_isspace s of
        [] \<Rightarrow> None
      | c # cs \<Rightarrow> if c = CHR ''('' then match_source keys keys cs else None)"

lemma after_prefix_length: "after_prefix p s = Some r \<Longrightarrow> length s = length p + length r"
  by (induction p s rule: after_prefix.induct) (auto split: if_splits)

lemma match_dest_length: "match_dest ks s = Some r \<Longrightarrow> length r < length s"
proof (induction ks)
  case Nil
  then show ?case by simp
next
  case (Cons k ks)
  show ?case
  proof (cases "after_prefix (k @ '')'') s")
    case None
    with Cons show ?thesis by simp
  next
    case (Some rest)
    with Cons.prems have "r = dropWhile py_isspace rest" by simp
    moreover have "length (dropWhile py_isspace rest) \<le> length rest"
      by (rule length_dropWhile_le)
    moreover have "length s = length (k @ '')'') + length rest"
      using Some by (rule after_prefix_length)
    ultimately show ?thesis by simp
  qed
qed

lemma match_source_length: "match_source keys ks s = Some r \<Longrightarrow> length r < length s"
proof (induction ks)
  case Nil
  then show ?case by simp
next
  case (Cons k ks)
  show ?case
  proof (cases "after_prefix (k @ '' -> '') s")
    case None
    with Cons show ?thesis by simp
  next
    case (Some rest)
    then have len: "length rest \<le> length s"
      by (auto dest: after_prefix_length)
    show ?thesis
    proof (cases "match_dest keys rest")
      case None
      with Some Cons show ?thesis by simp
    next
      case (Some rest')
      with \<open>after_prefix (k @ '' -> '') s = Some rest\<close> Cons.prems have "r = rest'" by simp
      with Some len show ?thesis
        by (auto dest: match_dest_length)
    qed
  qed
qed

lemma match_annotation_length: "match_annotation keys s = Some r \<Longrightarrow> length r < length s"
proof -
  assume a: "match_annotation keys s = Some r"
  have le: "length (dropWhile py_isspace s) \<le> length s"
    by (rule length_dropWhile_le)
  from a obtain cs where "dropWhile py_isspace s = CHR ''('' # cs" "match_source keys keys cs = Some r"
    by (auto simp: match_annotation_def split: list.splits if_splits)
  with le show ?thesis
    by (auto dest: match_source_length)
qed

text \<open>\<open>re.sub(pattern, "", s)\<close>: every match, from the left, is removed; the search goes on after it.\<close>

function re_sub_annotation :: "string list \<Rightarrow> string \<Rightarrow> string" where
  "re_sub_annotation keys [] = []"
| "re_sub_annotation keys (c # cs) =
     (case match_annotation keys (c # cs) of
        Some rest \<Rightarrow> re_sub_annotation keys rest
      | None \<Rightarrow> c # re_sub_annotation keys cs)"
  by pat_completeness auto
termination
  by (relation "measure (\<lambda>(keys, s). length s)") (auto dest: match_annotation_length)

text \<open>Lines 217 to 219 of the source: the suffix removal applied to a bot-authored message.\<close>

definition strip_annotation :: "languages \<Rightarrow> string \<Rightarrow> string" where
  "strip_annotation langs msg_content =
     py_strip (re_sub_annotation (annotation_keys langs) msg_content)"

text \<open>
  For stating properties: the pattern matches at no opening bracket of the body, in the
  text made of the body and of what follows it.
\<close>

fun annotation_free :: "string list \<Rightarrow> string \<Rightarrow> string \<Rightarrow> bool" where
  "annotation_free keys [] rest = True"
| "annotation_free keys (ch # chs) rest =
     ((ch = CHR ''('' \<longrightarrow> match_annotation keys (ch # chs @ rest) = None)
      \<and> annotation_free keys chs rest)"

subsection \<open>The handler\<close>

text \<open>
  The message replied to, as \<open>ctx.channel.fetch_message\<close> returns it, and what the handler
  reads of the invocation: the id in \<open>ctx.message.reference\<close>, if there is one, and the
  channel's answer to \<open>fetch_message\<close>.
\<close>

record message =
  content :: string
  author_id :: int

record ctx =
  reference :: "nat option"
  fetch_message :: "nat \<Rightarrow> pyexc + message"

text \<open>
  What the module holds when a command runs: the keys \<open>TOKEN\<close>, \<open>ID\<close> and
  \<open>TRANSLATE_API_KEY\<close> read from the environment, the dictionary \<open>LANGUAGES\<close>,
  and the two services, \<open>single_detection(text, api_key=TRANSLATE_API_KEY)\<close> and
  \<open>GoogleTranslator(source, target).translate(text)\<close>, each of which returns or raises.
  The translation may be \<open>None\<close>.
\<close>

record env =
  TOKEN :: string
  ID :: int
  TRANSLATE_API_KEY :: string
  LANGUAGES :: languages
  single_detection :: "string \<Rightarrow> pyexc + string"
  translate :: "string \<Rightarrow> string \<Rightarrow> string \<Rightarrow> pyexc + string option"

definition USAGE_ERROR :: string where
  "USAGE_ERROR = CHR 0x0A # ''Usage: Reply to a message with `-t <language>`.''"

text \<open>How an f-string shows a value that is a string or \<open>None\<close>.\<close>

text \<open>The message of the \<open>AttributeError\<close> for an attribute that an object does not have.\<close>

definition no_attribute :: "string \<Rightarrow> string \<Rightarrow> pyexc" where
  "no_attribute type_name attr =
     PyExc AttributeError ([CHR 0x27] @ type_name @ [CHR 0x27] @ '' object has no attribute ''
       @ [CHR 0x27] @ attr @ [CHR 0x27])"

fun format_optional :: "string option \<Rightarrow> string" where
  "format_optional None = ''None''"
| "format_optional (Some s) = s"

text \<open>
  The clause \<open>except Exception as e\<close> of \<open>t\<close>, entered after the actions \<open>done\<close>: what is
  not an \<open>Exception\<close> leaves the handler.
\<close>

definition t_except :: "action list \<Rightarrow> pyexc \<Rightarrow> result" where
  "t_except done e =
     (if exc_class_of e = NonException then Escaped done e
      else Done (done @ [Print (''Translation Error: '' @ exc_str e),
                         Reply (''Error: Unknown.'' @ [CHR 0x0A] @ USAGE_ERROR)]))"

text \<open>The last statement of \<open>t\<close>: the two reverse lookups, \<open>.title()\<close> on each, and the delivery.\<close>

definition t_output :: "env \<Rightarrow> action list \<Rightarrow> string \<Rightarrow> string \<Rightarrow> string \<Rightarrow> result" where
  "t_output env done translated_msg src_lang dest_lang =
     (case key_from_value (LANGUAGES env) src_lang of
        None \<Rightarrow> t_except done (no_attribute ''NoneType'' ''title'')
      | Some src_name \<Rightarrow>
          (case key_from_value (LANGUAGES env) dest_lang of
             None \<Rightarrow> t_except done (no_attribute ''NoneType'' ''title'')
           | Some dest_name \<Rightarrow>
               Done (done @ return_message
                 (''**'' @ translated_msg @ ''** ('' @ py_title src_name @ '' -> ''
                    @ py_title dest_name @ '')''))))"

text \<open>From the detection on (lines 225 to 244), with the cleaned text and the destination code.\<close>

definition t_translate :: "env \<Rightarrow> action list \<Rightarrow> string \<Rightarrow> string \<Rightarrow> result" where
  "t_translate env done msg_content dest_lang =
     (case single_detection env msg_content of
        Inl e \<Rightarrow> t_except (done @ [Detect msg_content]) e
      | Inr detected \<Rightarrow>
          let done = done @ [Detect msg_content];
              src_lang = (if detected = ''zh'' then ''zh-CN'' else detected)
          in if src_lang \<notin> snd ` set (LANGUAGES env)
             then Done (done @ [Reply (''Error: `'' @ src_lang
                    @ ''` is not a supported source language.'' @ [CHR 0x0A] @ USAGE_ERROR)])
             else
               (case translate env src_lang dest_lang msg_content of
                  Inl e \<Rightarrow> t_except (done @ [Translate src_lang dest_lang msg_content]) e
                | Inr translated_msg \<Rightarrow>
                    let done = done @ [Translate src_lang dest_lang msg_content]
                    in if translated_msg = None \<or> translated_msg = Some []
                       then Done (done @ [Reply (''Error: Translation failed.'' @ [CHR 0x0A] @ USAGE_ERROR)])
                       else t_output env done (the translated_msg) src_lang dest_lang))"

text \<open>
  Lines 213 to 219: the text of the replied message without surrounding blanks and without
  asterisks, and without the annotation when the bot is its author.
\<close>

definition extract_content :: "env \<Rightarrow> message \<Rightarrow> string" where
  "extract_content env msg =
     (let msg_content = filter (\<lambda>c. c \<noteq> CHR ''*'') (py_strip (content msg))
      in if author_id msg = ID env
         then strip_annotation (LANGUAGES env) msg_content
         else msg_content)"

text \<open>
  The command. The parameter \<open>dest_lang\<close> is assigned the result of \<open>get_lang_code\<close> before
  the error message that shows it is built.
\<close>

definition t :: "env \<Rightarrow> ctx \<Rightarrow> string \<Rightarrow> result" where
  "t env ctx dest_lang =
     (case reference ctx of
        None \<Rightarrow> Done [Reply (''Error: No Message Found.'' @ USAGE_ERROR)]
      | Some msg_id \<Rightarrow>
          let dest_lang = get_lang_code (LANGUAGES env) dest_lang
          in if dest_lang = None
             then Done [Reply (''Error: `'' @ format_optional dest_lang
                    @ ''` is not a valid language.'' @ USAGE_ERROR)]
             else
               (case fetch_message ctx msg_id of
                  Inl e \<Rightarrow> t_except [FetchMessage msg_id] e
                | Inr msg \<Rightarrow>
                    let msg_content = extract_content env msg
                    in if msg_content = []
                       then Done [FetchMessage msg_id,
                                  Reply (''Error: No Message Found.'' @ [CHR 0x0A] @ USAGE_ERROR)]
                       else t_translate env [FetchMessage msg_id] msg_content (the dest_lang)))"

text \<open>
  The command as the dispatcher calls it: \<open>dest_lang: str = "en"\<close> is used when the user
  gives no language.
\<close>

definition t_command :: "env \<Rightarrow> ctx \<Rightarrow> string option \<Rightarrow> result" where
  "t_command env ctx arg = t env ctx (case arg of None \<Rightarrow> ''en'' | Some dest_lang \<Rightarrow> dest_lang)"

text \<open>A setting for concrete evaluations: a detector and a translator that answer as told.\<close>

definition sample_env :: "string \<Rightarrow> string \<Rightarrow> env" where
  "sample_env detected translated =
     \<lparr>TOKEN = ''token'', ID = 42, TRANSLATE_API_KEY = ''key'', LANGUAGES = sample_languages,
      single_detection = (\<lambda>text. Inr detected),
      translate = (\<lambda>src dest text. Inr (Some translated))\<rparr>"

definition sample_ctx :: "string \<Rightarrow> int \<Rightarrow> ctx" where
  "sample_ctx text author =
     \<lparr>reference = Some 7, fetch_message = (\<lambda>msg_id. Inr \<lparr>content = text, author_id = author\<rparr>)\<rparr>"

section \<open>The listing command \<open>l\<close>\<close>

definition per_page :: nat where
  "per_page = 20"

text \<open>The format \<open>{s:<n}\<close>: the text, then blanks up to the width.\<close>

definition ljust :: "nat \<Rightarrow> string \<Rightarrow> string" where
  "ljust width s = s @ replicate (width - length s) (CHR '' '')"

definition page_row :: "string \<times> string \<Rightarrow> string" where
  "page_row item =
     ''| '' @ ljust 21 (py_title (fst item)) @ '' | '' @ ljust 12 (py_upper (snd item))
       @ '' |'' @ [CHR 0x0A]"

text \<open>
  One page, for the chunk that starts at index \<open>i\<close> of \<open>n\<close> entries.
  \<open>ceil(len(languages)/per_page)\<close> divides as a float and rounds up; for the sizes a
  dictionary can have that is the integer division rounded up.
\<close>

definition page_content :: "nat \<Rightarrow> nat \<Rightarrow> languages \<Rightarrow> string" where
  "page_content i n chunk =
     ''```SUPPORTED LANGUAGES ('' @ str_nat (i div per_page + 1) @ '' of ''
       @ str_nat ((n + per_page - 1) div per_page) @ ''):'' @ [CHR 0x0A]
       @ ''======================================='' @ [CHR 0x0A]
       @ ''| Language              | Abbreviation |'' @ [CHR 0x0A]
       @ ''|======================================|'' @ [CHR 0x0A]
       @ concat (map page_row chunk)
       @ ''```''"

text \<open>The loop \<open>for i in range(0, len(languages), per_page)\<close>, from \<open>i\<close>.\<close>

function build_pages :: "languages \<Rightarrow> nat \<Rightarrow> string list" where
  "build_pages languages i =
     (if i < length languages
      then page_content i (length languages) (take per_page (drop i languages))
             # build_pages languages (i + per_page)
      else [])"
  by pat_completeness auto
termination
  by (relation "measure (\<lambda>(languages, i). length languages - i)") (auto simp: per_page_def)

declare build_pages.simps [simp del]

text \<open>
  A \<open>reaction_add\<close> event: who reacted, on which message, with which emoji.
  \<open>Back\<close> and \<open>Forward\<close> are the two arrows the command puts under its message.
\<close>

record reaction_event =
  ev_user :: nat
  ev_message :: nat
  ev_emoji :: emoji

definition check :: "nat \<Rightarrow> nat \<Rightarrow> reaction_event \<Rightarrow> bool" where
  "check author message_id ev =
     (ev_user ev = author \<and> ev_message ev = message_id \<and> ev_emoji ev \<in> set [Back, Forward])"

text \<open>
  The \<open>while True\<close> loop on the events that arrive, from the cursor \<open>current_page\<close>:
  \<open>bot.wait_for\<close> passes over the events that \<open>check\<close> refuses. The loop has no exit; the
  value is the cursor and the actions once the given events are consumed. It runs only
  with more than one page, so the index \<open>current_page % len(pages)\<close> exists.
\<close>

fun navigate :: "string list \<Rightarrow> nat \<Rightarrow> nat \<Rightarrow> int \<Rightarrow> reaction_event list \<Rightarrow> int \<times> action list" where
  "navigate pages author message_id current_page [] = (current_page, [])"
| "navigate pages author message_id current_page (ev # evs) =
     (if \<not> check author message_id ev then navigate pages author message_id current_page evs
      else
        let current_page = (if ev_emoji ev = Forward then current_page + 1
                            else if ev_emoji ev = Back then current_page - 1
                            else current_page);
            new_page = pages ! nat (current_page mod int (length pages));
            (final_page, acts) = navigate pages author message_id current_page evs
        in (final_page, Edit new_page # RemoveReaction (ev_emoji ev) (ev_user ev) # acts))"

text \<open>
  The command, for the author of the invocation, the id of the message that \<open>reply\<close>
  returns, and the events that arrive afterwards. \<open>pages[current_page]\<close> raises when
  there is no page, outside any \<open>try\<close>.
\<close>

definition l :: "env \<Rightarrow> nat \<Rightarrow> nat \<Rightarrow> reaction_event list \<Rightarrow> result" where
  "l env author message_id events =
     (let pages = build_pages (LANGUAGES env) 0
      in case pages of
           [] \<Rightarrow> Escaped [] (PyExc IndexError ''list index out of range'')
         | first_page # _ \<Rightarrow>
             if length pages > 1
             then Pending ([Reply first_page, AddReaction Back, AddReaction Forward]
                    @ snd (navigate pages author message_id 0 events))
             else Done [Reply first_page])"

text \<open>A table of 45 entries and events on message 9 by user 1, for concrete evaluations.\<close>

definition many_languages :: languages where
  "many_languages = map (\<lambda>i. (''language '' @ str_nat i, ''l'' @ str_nat i)) [0..<45]"

definition many_env :: env where
  "many_env = (sample_env ''en'' ''hello'')\<lparr>LANGUAGES := many_languages\<rparr>"

definition press :: "emoji \<Rightarrow> reaction_event" where
  "press em = \<lparr>ev_user = 1, ev_message = 9, ev_emoji = em\<rparr>"

text \<open>For stating properties: the pages shown by edits, and next minus previous activations.\<close>

fun is_edit :: "action \<Rightarrow> bool" where
  "is_edit (Edit s) = True"
| "is_edit _ = False"

definition shown_pages :: "action list \<Rightarrow> string list" where
  "shown_pages acts = map sent_text (filter is_edit acts)"

definition net_moves :: "reaction_event list \<Rightarrow> int" where
  "net_moves evs = int (length (filter (\<lambda>ev. ev_emoji ev = Forward) evs))
                 - int (length (filter (\<lambda>ev. ev_emoji ev = Back) evs))"

section \<open>The calculate command \<open>c\<close>\<close>

subsection \<open>A fragment of \<open>eval\<close>\<close>

text \<open>
  \<open>c\<close> passes its text to Python's \<open>eval\<close>, with no namespace argument: the expression is
  evaluated in the scope of the call. What follows is that evaluation on the expressions
  made of decimal integers, names, \<open>+ - * / **\<close>, brackets and calls. Every other text,
  and every value that is not an integer where its value matters, gives \<open>Unmodelled\<close>.
\<close>

datatype pyval = PInt int | PStr string | PFloat | PCallable string | PObject string

datatype 'a outcome = Value 'a | Raise pyexc | Unmodelled

datatype token = TNum nat | TName string | TPlus | TMinus | TStar | TSlash | TPow
  | TLPar | TRPar | TComma | TOther

datatype binop = Add | Sub | Mult | Div | Power

datatype unop = UAdd | USub

datatype expr = Num nat | Name string | BinOp binop expr expr | UnaryOp unop expr
  | Call expr "expr list"

definition is_digit :: "char \<Rightarrow> bool" where
  "is_digit c = (c \<in> set ''0123456789'')"

definition digit_val :: "char \<Rightarrow> nat" where
  "digit_val c = of_char c - 48"

definition is_name_start :: "char \<Rightarrow> bool" where
  "is_name_start c = (is_lower c \<or> is_upper c \<or> c = CHR ''_'')"

definition is_name_char :: "char \<Rightarrow> bool" where
  "is_name_char c = (is_name_start c \<or> is_digit c)"

definition py_keywords :: "string list" where
  "py_keywords = [''False'', ''None'', ''True'', ''and'', ''as'', ''assert'', ''async'', ''await'',
     ''break'', ''class'', ''continue'', ''def'', ''del'', ''elif'', ''else'', ''except'', ''finally'',
     ''for'', ''from'', ''global'', ''if'', ''import'', ''in'', ''is'', ''lambda'', ''nonlocal'', ''not'',
     ''or'', ''pass'', ''raise'', ''return'', ''try'', ''while'', ''with'', ''yield'']"

definition name_token :: "string \<Rightarrow> token" where
  "name_token s = (if s \<in> set py_keywords then TOther else TName s)"

text \<open>
  The tokens of a text. \<open>TOther\<close> ends the list at whatever is outside the fragment:
  another character, a keyword, a literal that is not a plain decimal integer.
\<close>

fun lex :: "string \<Rightarrow> token list"
  and lex_zero :: "string \<Rightarrow> token list"
  and lex_num :: "nat \<Rightarrow> string \<Rightarrow> token list"
  and lex_name :: "string \<Rightarrow> string \<Rightarrow> token list"
  and lex_star :: "string \<Rightarrow> token list"
  and lex_slash :: "string \<Rightarrow> token list" where
  "lex [] = []"
| "lex (c # cs) =
     (if c = CHR '' '' \<or> c = CHR 0x09 then lex cs
      else if c = CHR ''0'' then lex_zero cs
      else if is_digit c then lex_num (digit_val c) cs
      else if is_name_start c then lex_name [c] cs
      else if c = CHR ''+'' then TPlus # lex cs
      else if c = CHR ''-'' then TMinus # lex cs
      else if c = CHR ''*'' then lex_star cs
      else if c = CHR ''/'' then lex_slash cs
      else if c = CHR ''('' then TLPar # lex cs
      else if c = CHR '')'' then TRPar # lex cs
      else if c = CHR '','' then TComma # lex cs
      else [TOther])"
| "lex_zero [] = [TNum 0]"
| "lex_zero (c # cs) =
     (if is_name_char c \<or> c = CHR ''.'' then [TOther] else TNum 0 # lex (c # cs))"
| "lex_num n [] = [TNum n]"
| "lex_num n (c # cs) =
     (if is_digit c then lex_num (10 * n + digit_val c) cs
      else if is_name_char c \<or> c = CHR ''.'' then [TOther]
      else TNum n # lex (c # cs))"
| "lex_name s [] = [name_token s]"
| "lex_name s (c # cs) =
     (if is_name_char c then lex_name (s @ [c]) cs
      else if c = CHR 0x22 \<or> c = CHR 0x27 then [TOther]
      else name_token s # lex (c # cs))"
| "lex_star [] = [TStar]"
| "lex_star (c # cs) =
     (if c = CHR ''*'' then TPow # lex cs
      else if c = CHR ''='' then [TOther]
      else TStar # lex (c # cs))"
| "lex_slash [] = [TSlash]"
| "lex_slash (c # cs) =
     (if c = CHR ''/'' \<or> c = CHR ''='' then [TOther] else TSlash # lex (c # cs))"

text \<open>
  The grammar of Python on these tokens, by recursive descent: sums of terms, products of
  factors, signs, a power with a factor as its exponent, calls after an atom. One function
  serves every production. Its first argument bounds the depth of the descent; its third
  one is the expression read so far, for the productions that continue one (the left
  operand, the function called, the call whose arguments are being read) and is not used
  by the others. \<open>None\<close> is a text outside the fragment.
\<close>

datatype production = NExpr | NExprRest | NTerm | NTermRest | NFactor | NPower | NPrimary
  | NTrailers | NArgs | NAtom

definition next_is :: "token \<Rightarrow> token list \<Rightarrow> bool" where
  "next_is tok toks = (toks \<noteq> [] \<and> hd toks = tok)"

fun add_arg :: "expr \<Rightarrow> expr \<Rightarrow> expr" where
  "add_arg (Call f args) a = Call f (args @ [a])"
| "add_arg e a = e"

primrec parse :: "nat \<Rightarrow> production \<Rightarrow> expr \<Rightarrow> token list \<Rightarrow> (expr \<times> token list) option" where
  "parse 0 nt acc toks = None"
| "parse (Suc n) nt acc toks =
     (case nt of
        NExpr \<Rightarrow>
          (case parse n NTerm acc toks of
             None \<Rightarrow> None
           | Some (a, rest) \<Rightarrow> parse n NExprRest a rest)
      | NExprRest \<Rightarrow>
          if next_is TPlus toks then
            (case parse n NTerm acc (tl toks) of
               None \<Rightarrow> None
             | Some (b, rest) \<Rightarrow> parse n NExprRest (BinOp Add acc b) rest)
          else if next_is TMinus toks then
            (case parse n NTerm acc (tl toks) of
               None \<Rightarrow> None
             | Some (b, rest) \<Rightarrow> parse n NExprRest (BinOp Sub acc b) rest)
          else Some (acc, toks)
      | NTerm \<Rightarrow>
          (case parse n NFactor acc toks of
             None \<Rightarrow> None
           | Some (a, rest) \<Rightarrow> parse n NTermRest a rest)
      | NTermRest \<Rightarrow>
          if next_is TStar toks then
            (case parse n NFactor acc (tl toks) of
               None \<Rightarrow> None
             | Some (b, rest) \<Rightarrow> parse n NTermRest (BinOp Mult acc b) rest)
          else if next_is TSlash toks then
            (case parse n NFactor acc (tl toks) of
               None \<Rightarrow> None
             | Some (b, rest) \<Rightarrow> parse n NTermRest (BinOp Div acc b) rest)
          else Some (acc, toks)
      | NFactor \<Rightarrow>
          if next_is TMinus toks then
            (case parse n NFactor acc (tl toks) of
               None \<Rightarrow> None
             | Some (a, rest) \<Rightarrow> Some (UnaryOp USub a, rest))
          else if next_is TPlus toks then
            (case parse n NFactor acc (tl toks) of
               None \<Rightarrow> None
             | Some (a, rest) \<Rightarrow> Some (UnaryOp UAdd a, rest))
          else parse n NPower acc toks
      | NPower \<Rightarrow>
          (case parse n NPrimary acc toks of
             None \<Rightarrow> None
           | Some (a, rest) \<Rightarrow>
               if next_is TPow rest then
                 (case parse n NFactor acc (tl rest) of
                    None \<Rightarrow> None
                  | Some (b, rest') \<Rightarrow> Some (BinOp Power a b, rest'))
               else Some (a, rest))
      | NPrimary \<Rightarrow>
          (case parse n NAtom acc toks of
             None \<Rightarrow> None
           | Some (a, rest) \<Rightarrow> parse n NTrailers a rest)
      | NTrailers \<Rightarrow>
          if next_is TLPar toks then
            (if next_is TRPar (tl toks) then parse n NTrailers (Call acc []) (tl (tl toks))
             else parse n NArgs (Call acc []) (tl toks))
          else Some (acc, toks)
      | NArgs \<Rightarrow>
          (case parse n NExpr acc toks of
             None \<Rightarrow> None
           | Some (a, rest) \<Rightarrow>
               if next_is TComma rest then parse n NArgs (add_arg acc a) (tl rest)
               else if next_is TRPar rest then parse n NTrailers (add_arg acc a) (tl rest)
               else None)
      | NAtom \<Rightarrow>
          (case toks of
             [] \<Rightarrow> None
           | tok # rest \<Rightarrow>
               (case tok of
                  TNum k \<Rightarrow> Some (Num k, rest)
                | TName x \<Rightarrow> Some (Name x, rest)
                | TLPar \<Rightarrow>
                    (case parse n NExpr acc rest of
                       None \<Rightarrow> None
                     | Some (a, rest') \<Rightarrow>
                         if next_is TRPar rest' then Some (a, tl rest') else None)
                | _ \<Rightarrow> None)))"

text \<open>
  The text as an expression. Python refuses brackets nested 200 deep; the descent is cut
  well before that depth, and a deeper text is outside the fragment.
\<close>

definition max_descent :: nat where
  "max_descent = 1000"

definition py_parse :: "string \<Rightarrow> expr option" where
  "py_parse source =
     (let toks = lex source
      in case parse (min (8 * length toks + 8) max_descent) NExpr (Num 0) toks of
           None \<Rightarrow> None
         | Some (a, rest) \<Rightarrow> if rest = [] then Some a else None)"

text \<open>
  The names an expression can see when \<open>eval\<close> runs inside \<open>c\<close>: the local variables of
  \<open>c\<close>, then every name the module binds (its imports, its functions and commands, its
  constants), then the built-in functions.
\<close>

definition c_locals :: "string \<Rightarrow> (string \<times> pyval) list" where
  "c_locals eq = [(''ctx'', PObject ''Context''), (''equation'', PObject ''tuple''), (''eq'', PStr eq)]"

definition module_globals :: "env \<Rightarrow> (string \<times> pyval) list" where
  "module_globals env =
     [(''os'', PObject ''module''), (''re'', PObject ''module''),
      (''Any'', PObject ''_SpecialForm''), (''Optional'', PObject ''_SpecialForm''),
      (''Union'', PObject ''_SpecialForm''), (''load_dotenv'', PCallable ''load_dotenv''),
      (''discord'', PObject ''module''), (''commands'', PObject ''module''),
      (''GoogleTranslator'', PCallable ''GoogleTranslator''),
      (''single_detection'', PCallable ''single_detection''),
      (''floor'', PCallable ''floor''), (''ceil'', PCallable ''ceil''), (''sqrt'', PCallable ''sqrt''),
      (''pi'', PFloat), (''sin'', PCallable ''sin''), (''cos'', PCallable ''cos''),
      (''tan'', PCallable ''tan''), (''asin'', PCallable ''asin''), (''acos'', PCallable ''acos''),
      (''atan'', PCallable ''atan''), (''deg'', PCallable ''degrees''), (''rad'', PCallable ''radians''),
      (''fetch_key'', PCallable ''fetch_key''), (''key_from_value'', PCallable ''key_from_value''),
      (''TOKEN'', PStr (TOKEN env)), (''ID'', PInt (ID env)),
      (''TRANSLATE_API_KEY'', PStr (TRANSLATE_API_KEY env)), (''LANGUAGES'', PObject ''dict''),
      (''MAX_MESSAGE_LENGTH'', PInt (int MAX_MESSAGE_LENGTH)), (''bot'', PObject ''Bot''),
      (''return_message'', PCallable ''return_message''), (''h'', PObject ''Command''),
      (''get_lang_code'', PCallable ''get_lang_code''), (''t'', PObject ''Command''),
      (''l'', PObject ''Command''), (''c'', PObject ''Command''), (''e'', PObject ''Command'')]"

definition builtin_functions :: "string list" where
  "builtin_functions = [''abs'', ''aiter'', ''all'', ''anext'', ''any'', ''ascii'', ''bin'', ''bool'',
     ''breakpoint'', ''bytearray'', ''bytes'', ''callable'', ''chr'', ''classmethod'', ''compile'',
     ''complex'', ''copyright'', ''credits'', ''delattr'', ''dict'', ''dir'', ''divmod'', ''enumerate'',
     ''eval'', ''exec'', ''exit'', ''filter'', ''float'', ''format'', ''frozenset'', ''getattr'',
     ''globals'', ''hasattr'', ''hash'', ''help'', ''hex'', ''id'', ''input'', ''int'', ''isinstance'',
     ''issubclass'', ''iter'', ''len'', ''license'', ''list'', ''locals'', ''map'', ''max'',
     ''memoryview'', ''min'', ''next'', ''object'', ''oct'', ''open'', ''ord'', ''pow'', ''print'',
     ''property'', ''quit'', ''range'', ''repr'', ''reversed'', ''round'', ''set'', ''setattr'',
     ''slice'', ''sorted'', ''staticmethod'', ''str'', ''sum'', ''super'', ''tuple'', ''type'', ''vars'',
     ''zip'']"

text \<open>
  Looking a name up. A name found nowhere raises \<open>NameError\<close>; this is stated for names
  that start with a lower-case letter only, the built-in names of that shape being listed.
\<close>

definition lookup_name :: "env \<Rightarrow> string \<Rightarrow> string \<Rightarrow> pyval outcome" where
  "lookup_name env eq x =
     (case map_of (c_locals eq) x of
        Some v \<Rightarrow> Value v
      | None \<Rightarrow>
          (case map_of (module_globals env) x of
             Some v \<Rightarrow> Value v
           | None \<Rightarrow>
               if x \<in> set builtin_functions then Value (PCallable x)
               else if x \<noteq> [] \<and> is_lower (hd x)
               then Raise (PyExc NameError (''name '' @ [CHR 0x27] @ x @ [CHR 0x27] @ '' is not defined''))
               else Unmodelled))"

text \<open>Integer arithmetic; a quotient or a negative power is a float.\<close>

fun apply_binop :: "binop \<Rightarrow> pyval \<Rightarrow> pyval \<Rightarrow> pyval outcome" where
  "apply_binop Add (PInt a) (PInt b) = Value (PInt (a + b))"
| "apply_binop Sub (PInt a) (PInt b) = Value (PInt (a - b))"
| "apply_binop Mult (PInt a) (PInt b) = Value (PInt (a * b))"
| "apply_binop Div (PInt a) (PInt b) =
     (if b = 0 then Raise (PyExc ZeroDivisionError ''division by zero'') else Unmodelled)"
| "apply_binop Power (PInt a) (PInt b) =
     (if 0 \<le> b then Value (PInt (a ^ nat b)) else Unmodelled)"
| "apply_binop _ _ _ = Unmodelled"

fun apply_unop :: "unop \<Rightarrow> pyval \<Rightarrow> pyval outcome" where
  "apply_unop UAdd (PInt a) = Value (PInt a)"
| "apply_unop USub (PInt a) = Value (PInt (- a))"
| "apply_unop _ _ = Unmodelled"

text \<open>Calls: \<open>floor\<close> and \<open>ceil\<close> of an integer, and \<open>sqrt\<close> of a negative integer, which raises.\<close>

fun apply_call :: "pyval \<Rightarrow> pyval list \<Rightarrow> pyval outcome" where
  "apply_call (PCallable f) [PInt a] =
     (if f = ''floor'' \<or> f = ''ceil'' then Value (PInt a)
      else if f = ''sqrt'' \<and> a < 0 then Raise (PyExc ValueError ''math domain error'')
      else Unmodelled)"
| "apply_call _ _ = Unmodelled"

text \<open>Evaluation, operands from left to right, the function of a call before its arguments.\<close>

fun eval_expr :: "env \<Rightarrow> string \<Rightarrow> expr \<Rightarrow> pyval outcome"
  and eval_args :: "env \<Rightarrow> string \<Rightarrow> expr list \<Rightarrow> pyval list outcome" where
  "eval_expr env eq (Num n) = Value (PInt (int n))"
| "eval_expr env eq (Name x) = lookup_name env eq x"
| "eval_expr env eq (BinOp op a b) =
     (case eval_expr env eq a of
        Value u \<Rightarrow>
          (case eval_expr env eq b of
             Value v \<Rightarrow> apply_binop op u v
           | Raise e \<Rightarrow> Raise e
           | Unmodelled \<Rightarrow> Unmodelled)
      | Raise e \<Rightarrow> Raise e
      | Unmodelled \<Rightarrow> Unmodelled)"
| "eval_expr env eq (UnaryOp op a) =
     (case eval_expr env eq a of
        Value u \<Rightarrow> apply_unop op u
      | Raise e \<Rightarrow> Raise e
      | Unmodelled \<Rightarrow> Unmodelled)"
| "eval_expr env eq (Call f args) =
     (case eval_expr env eq f of
        Value u \<Rightarrow>
          (case eval_args env eq args of
             Value vs \<Rightarrow> apply_call u vs
           | Raise e \<Rightarrow> Raise e
           | Unmodelled \<Rightarrow> Unmodelled)
      | Raise e \<Rightarrow> Raise e
      | Unmodelled \<Rightarrow> Unmodelled)"
| "eval_args env eq [] = Value []"
| "eval_args env eq (a # as) =
     (case eval_expr env eq a of
        Value u \<Rightarrow>
          (case eval_args env eq as of
             Value vs \<Rightarrow> Value (u # vs)
           | Raise e \<Rightarrow> Raise e
           | Unmodelled \<Rightarrow> Unmodelled)
      | Raise e \<Rightarrow> Raise e
      | Unmodelled \<Rightarrow> Unmodelled)"

definition py_eval :: "env \<Rightarrow> string \<Rightarrow> pyval outcome" where
  "py_eval env eq = (case py_parse eq of None \<Rightarrow> Unmodelled | Some a \<Rightarrow> eval_expr env eq a)"

text \<open>\<open>round(v, 5)\<close>: an integer is returned as it is; a string has no rounding.\<close>

fun round_5 :: "pyval \<Rightarrow> pyval outcome" where
  "round_5 (PInt a) = Value (PInt a)"
| "round_5 (PStr s) = Raise (PyExc TypeError (''type str doesn'' @ [CHR 0x27] @ ''t define __round__ method''))"
| "round_5 _ = Unmodelled"

subsection \<open>The handler\<close>

text \<open>\<open>s.replace("^", "**")\<close>.\<close>

definition replace_caret :: "string \<Rightarrow> string" where
  "replace_caret s = concat (map (\<lambda>ch. if ch = CHR ''^'' then ''**'' else [ch]) s)"

definition c_usage :: string where
  "c_usage = ''Usage: `-c <equation>`''"

text \<open>
  The \<open>except\<close> clauses of \<open>c\<close>, in their order. The second one reads \<open>e.split()\<close> on the
  exception object itself, which has no such attribute: the \<open>AttributeError\<close> is raised
  inside the clause, where the later clauses of the same \<open>try\<close> do not apply.
\<close>

definition c_except :: "pyexc \<Rightarrow> result" where
  "c_except e =
     (if exc_class_of e = ValueError then Done [Reply ''Undefined'']
      else if exc_class_of e = NameError then Escaped [] (no_attribute ''NameError'' ''split'')
      else if exc_class_of e \<noteq> NonException
      then Done [Print (exc_str e), Reply (''Unknown Error:'' @ [CHR 0x0A] @ c_usage)]
      else Escaped [] e)"

text \<open>
  The command. Showing an integer of more than 4300 digits in the f-string raises
  \<open>ValueError\<close>, inside the \<open>try\<close>.
\<close>

definition max_str_digits :: nat where
  "max_str_digits = 4300"

definition c :: "env \<Rightarrow> string list \<Rightarrow> result" where
  "c env equation =
     (let eq = replace_caret (py_join '' '' equation)
      in if eq = []
         then Done [Reply (''Error: No Equation Found.'' @ [CHR 0x0A] @ c_usage)]
         else
           (case py_eval env eq of
              Value v \<Rightarrow>
                (case round_5 v of
                   Value (PInt rounded) \<Rightarrow>
                     if max_str_digits < length (str_nat (nat (abs rounded)))
                     then c_except (PyExc ValueError
                            ''Exceeds the limit (4300 digits) for integer string conversion'')
                     else Done [Reply (''Total: **'' @ str_int rounded @ ''**'')]
                 | Value _ \<Rightarrow> Outside
                 | Raise e \<Rightarrow> c_except e
                 | Unmodelled \<Rightarrow> Outside)
            | Raise e \<Rightarrow> c_except e
            | Unmodelled \<Rightarrow> Outside))"

section \<open>Properties of \<open>return_message\<close>\<close>

lemma send_chunks_concat:
  "concat (map sent_text (send_chunks whole i)) = drop i whole"
proof (induction whole i rule: send_chunks.induct)
  case (1 whole i)
  show ?case
  proof (cases "i < length whole")
    case True
    have "drop i whole = take MAX_MESSAGE_LENGTH (drop i whole) @ drop (i + MAX_MESSAGE_LENGTH) whole"
      by (metis add.commute append_take_drop_id drop_drop)
    with True 1 show ?thesis
      by (subst send_chunks.simps) simp
  next
    case False
    then show ?thesis
      by (subst send_chunks.simps) simp
  qed
qed

lemma send_chunks_are_sends:
  "a \<in> set (send_chunks whole i) \<Longrightarrow> \<exists>s. a = Send s \<and> length s \<le> MAX_MESSAGE_LENGTH"
proof (induction whole i rule: send_chunks.induct)
  case (1 whole i)
  show ?case
  proof (cases "i < length whole")
    case True
    with 1 show ?thesis
      by (subst (asm) (2) send_chunks.simps) auto
  next
    case False
    with 1(2) show ?thesis
      by (subst (asm) send_chunks.simps) simp
  qed
qed

lemma send_chunks_map_Send:
  "send_chunks whole i = map Send (map sent_text (send_chunks whole i))"
proof -
  have "\<forall>a \<in> set (send_chunks whole i). Send (sent_text a) = a"
    using send_chunks_are_sends by fastforce
  then show ?thesis
    by (simp add: map_idI)
qed

lemma send_chunks_4500:
  assumes "length whole = 4500"
  shows "map (length \<circ> sent_text) (send_chunks whole 2000) = [2000, 500]"
proof -
  have "send_chunks whole 2000 =
          [Send (take 2000 (drop 2000 whole)), Send (take 2000 (drop 4000 whole))]"
    using assms
    by (simp add: send_chunks.simps [of whole 2000] send_chunks.simps [of whole 4000]
        send_chunks.simps [of whole 6000] MAX_MESSAGE_LENGTH_def)
  then show ?thesis
    using assms by simp
qed

text \<open>
  C7. \<open>return_message\<close> sends its content as consecutive slices \<open>cs\<close>: the first one as a
  reply, every later one as a follow-up message, in the original order; the slices put
  together are the content, none is longer than 2000, and a content of 4500 characters
  gives exactly three slices of 2000, 2000 and 500 characters.
\<close>

theorem return_message_chunks:
  "\<exists>first rest. return_message whole = Reply first # map Send rest
        \<and> concat (first # rest) = whole
        \<and> (\<forall>s \<in> set (first # rest). length s \<le> 2000)
        \<and> (length whole = 4500 \<longrightarrow> map length (first # rest) = [2000, 2000, 500])"
proof -
  let ?c = "take MAX_MESSAGE_LENGTH whole"
  let ?cs = "map sent_text (send_chunks whole MAX_MESSAGE_LENGTH)"
  have 1: "return_message whole = Reply ?c # map Send ?cs"
    using send_chunks_map_Send [of whole MAX_MESSAGE_LENGTH] by (simp add: return_message_def)
  have 2: "concat (?c # ?cs) = whole"
    by (simp add: send_chunks_concat)
  have 3: "\<forall>s \<in> set (?c # ?cs). length s \<le> 2000"
    using send_chunks_are_sends [of _ whole MAX_MESSAGE_LENGTH]
    by (fastforce simp: MAX_MESSAGE_LENGTH_def)
  have 4: "length whole = 4500 \<longrightarrow> map length (?c # ?cs) = [2000, 2000, 500]"
    using send_chunks_4500 [of whole] by (simp add: MAX_MESSAGE_LENGTH_def)
  show ?thesis
    by (rule exI [of _ ?c], rule exI [of _ ?cs]) (use 1 2 3 4 in blast)
qed

theorem return_message_chunks_witness:
  "\<exists>first rest. return_message (replicate 4500 (CHR ''a'')) = Reply first # map Send rest
        \<and> concat (first # rest) = replicate 4500 (CHR ''a'')
        \<and> map length (first # rest) = [2000, 2000, 500]"
proof -
  have len: "length (replicate 4500 (CHR ''a'')) = 4500"
    by simp
  obtain first rest where
    a: "return_message (replicate 4500 (CHR ''a'')) = Reply first # map Send rest" and
    b: "concat (first # rest) = replicate 4500 (CHR ''a'')" and
    d: "length (replicate 4500 (CHR ''a'')) = 4500 \<longrightarrow> map length (first # rest) = [2000, 2000, 500]"
    using return_message_chunks [of "replicate 4500 (CHR ''a'')"] by (elim exE conjE)
  from d len have e: "map length (first # rest) = [2000, 2000, 500]"
    by (rule mp)
  from a b e show ?thesis
    by (intro exI [of _ first] exI [of _ rest] conjI)
qed

section \<open>Properties of the language registry\<close>

lemma find_lang_miss:
  "\<forall>e \<in> set langs. d \<noteq> fst e \<and> d \<noteq> snd e \<Longrightarrow> find_lang langs d = None"
  by (induction langs) auto

lemma find_lang_first:
  "\<forall>e \<in> set pre. d \<noteq> fst e \<and> d \<noteq> snd e \<Longrightarrow> d = name \<or> d = code \<Longrightarrow>
     find_lang (pre @ (name, code) # post) d = Some code"
  by (induction pre) auto

lemma key_from_value_first:
  "\<forall>e \<in> set pre. snd e \<noteq> code \<Longrightarrow> key_from_value (pre @ (name, code) # post) code = Some name"
  by (induction pre) auto

lemma py_lower_literals:
  "py_lower ''chinese'' = ''chinese''" "py_lower ''zh'' = ''zh''"
  "py_lower ''zh-tw'' = ''zh-tw''" "py_lower ''zh-cn'' = ''zh-cn''"
  by (simp_all add: py_lower_def lower_char_def upper_letters_def lower_letters_def)

text \<open>
  C8. When no entry of the table has one of the four tokens as its display name or as its
  code, \<open>get_lang_code\<close> maps \<open>chinese\<close> and \<open>zh\<close> to \<open>zh-CN\<close>, \<open>zh-tw\<close> to \<open>zh-TW\<close> and
  \<open>zh-cn\<close> to \<open>zh-CN\<close>, and the results for \<open>zh-tw\<close> and \<open>zh-cn\<close> differ. The table is
  tried first: in any table, a token whose lower-case form is the name or the code of an
  entry, and of no earlier entry, resolves to that entry's code.
\<close>

theorem get_lang_code_chinese:
  assumes "\<forall>e \<in> set langs. \<forall>d \<in> {''chinese'', ''zh'', ''zh-tw'', ''zh-cn''}. d \<noteq> fst e \<and> d \<noteq> snd e"
  shows "get_lang_code langs ''chinese'' = Some ''zh-CN''
       \<and> get_lang_code langs ''zh'' = Some ''zh-CN''
       \<and> get_lang_code langs ''zh-tw'' = Some ''zh-TW''
       \<and> get_lang_code langs ''zh-cn'' = Some ''zh-CN''
       \<and> get_lang_code langs ''zh-tw'' \<noteq> get_lang_code langs ''zh-cn''
       \<and> (\<forall>pre name code post tok.
            (\<forall>e \<in> set pre. py_lower tok \<noteq> fst e \<and> py_lower tok \<noteq> snd e)
            \<and> (py_lower tok = name \<or> py_lower tok = code)
            \<longrightarrow> get_lang_code (pre @ (name, code) # post) tok = Some code)"
proof -
  have miss: "find_lang langs d = None"
    if "d \<in> {''chinese'', ''zh'', ''zh-tw'', ''zh-cn''}" for d
    using assms that by (intro find_lang_miss) blast
  have a: "get_lang_code langs ''chinese'' = Some ''zh-CN''"
    by (simp add: get_lang_code_def py_lower_literals miss)
  have b: "get_lang_code langs ''zh'' = Some ''zh-CN''"
    by (simp add: get_lang_code_def py_lower_literals miss)
  have c: "get_lang_code langs ''zh-tw'' = Some ''zh-TW''"
    by (simp add: get_lang_code_def py_lower_literals miss)
  have d: "get_lang_code langs ''zh-cn'' = Some ''zh-CN''"
    by (simp add: get_lang_code_def py_lower_literals miss)
  have e: "get_lang_code langs ''zh-tw'' \<noteq> get_lang_code langs ''zh-cn''"
    by (simp add: c d)
  have f: "get_lang_code (pre @ (name, code) # post) tok = Some code"
    if "\<forall>e \<in> set pre. py_lower tok \<noteq> fst e \<and> py_lower tok \<noteq> snd e"
       "py_lower tok = name \<or> py_lower tok = code" for pre name code post tok
    using find_lang_first [OF that, of post] by (simp add: get_lang_code_def)
  from a b c d e f show ?thesis
    by blast
qed

theorem get_lang_code_chinese_witness:
  "get_lang_code sample_languages ''chinese'' = Some ''zh-CN''
     \<and> get_lang_code sample_languages ''zh'' = Some ''zh-CN''
     \<and> get_lang_code sample_languages ''zh-tw'' = Some ''zh-TW''
     \<and> get_lang_code sample_languages ''zh-cn'' = Some ''zh-CN''
     \<and> get_lang_code sample_languages ''FRENCH'' = Some ''fr''"
proof -
  have h: "\<forall>e \<in> set sample_languages.
             \<forall>d \<in> {''chinese'', ''zh'', ''zh-tw'', ''zh-cn''}. d \<noteq> fst e \<and> d \<noteq> snd e"
    by (simp add: sample_languages_def)
  note t = get_lang_code_chinese [OF h]
  have l: "py_lower ''FRENCH'' = ''french''"
    by (simp add: py_lower_def lower_char_def upper_letters_def lower_letters_def)
  have s: "sample_languages = [(''chinese (simplified)'', ''zh-CN''),
      (''chinese (traditional)'', ''zh-TW''), (''english'', ''en'')]
      @ (''french'', ''fr'') # [(''spanish'', ''es'')]"
    by (simp add: sample_languages_def)
  have p: "(\<forall>e \<in> set [(''chinese (simplified)'', ''zh-CN''),
      (''chinese (traditional)'', ''zh-TW''), (''english'', ''en'')].
        py_lower ''FRENCH'' \<noteq> fst e \<and> py_lower ''FRENCH'' \<noteq> snd e)
      \<and> (py_lower ''FRENCH'' = ''french'' \<or> py_lower ''FRENCH'' = ''fr'')"
    unfolding l by simp
  from t have "\<forall>pre name code post tok.
            (\<forall>e \<in> set pre. py_lower tok \<noteq> fst e \<and> py_lower tok \<noteq> snd e)
            \<and> (py_lower tok = name \<or> py_lower tok = code)
            \<longrightarrow> get_lang_code (pre @ (name, code) # post) tok = Some code"
    by (elim conjE)
  from this [rule_format, OF p, of "[(''spanish'', ''es'')]"]
  have f: "get_lang_code sample_languages ''FRENCH'' = Some ''fr''"
    unfolding s .
  from t f show ?thesis
    by (elim conjE) (intro conjI)
qed

text \<open>
  C9 as stated fails: a display name that shares its code with an earlier entry resolves to
  the code, and the reverse lookup gives the earlier name.
\<close>

theorem round_trip_counterexample:
  "Option.bind (get_lang_code [(''filipino'', ''tl''), (''tagalog'', ''tl'')] ''tagalog'')
     (key_from_value [(''filipino'', ''tl''), (''tagalog'', ''tl'')]) = Some ''filipino''"
  by (simp add: get_lang_code_def py_lower_def lower_char_def upper_letters_def lower_letters_def)

text \<open>
  C9, amended. For an entry \<open>(name, code)\<close> of the table whose name is in lower case, and
  such that no earlier entry has this name, has this name as its code, or has the same
  code, the reverse lookup of \<open>get_lang_code name\<close> is \<open>name\<close>.
\<close>

theorem round_trip_first_entry:
  assumes "langs = pre @ (name, code) # post"
    and "py_lower name = name"
    and "\<forall>e \<in> set pre. fst e \<noteq> name \<and> snd e \<noteq> name \<and> snd e \<noteq> code"
  shows "Option.bind (get_lang_code langs name) (key_from_value langs) = Some name"
proof -
  have "find_lang langs name = Some code"
    unfolding assms(1) using assms(3) by (intro find_lang_first) auto
  then have "get_lang_code langs name = Some code"
    by (simp add: get_lang_code_def assms(2))
  moreover have "key_from_value langs code = Some name"
    unfolding assms(1) using assms(3) by (intro key_from_value_first) auto
  ultimately show ?thesis
    by simp
qed

theorem round_trip_first_entry_witness:
  "Option.bind (get_lang_code sample_languages ''english'') (key_from_value sample_languages)
     = Some ''english''"
proof -
  have 1: "sample_languages = [(''chinese (simplified)'', ''zh-CN''),
      (''chinese (traditional)'', ''zh-TW'')] @ (''english'', ''en'') # [(''french'', ''fr''), (''spanish'', ''es'')]"
    by (simp add: sample_languages_def)
  have 2: "py_lower ''english'' = ''english''"
    by (simp add: py_lower_def lower_char_def upper_letters_def lower_letters_def)
  have 3: "\<forall>e \<in> set [(''chinese (simplified)'', ''zh-CN''), (''chinese (traditional)'', ''zh-TW'')].
             fst e \<noteq> ''english'' \<and> snd e \<noteq> ''english'' \<and> snd e \<noteq> ''en''"
    by simp
  show ?thesis
    by (rule round_trip_first_entry [OF 1 2 3])
qed

section \<open>Properties of the annotation removal\<close>

lemma after_prefix_iff: "after_prefix p s = Some r \<longleftrightarrow> s = p @ r"
  by (induction p s rule: after_prefix.induct) auto

lemma after_prefix_None_iff: "after_prefix p s = None \<longleftrightarrow> (\<forall>r. s \<noteq> p @ r)"
  by (metis after_prefix_iff not_None_eq)

lemma py_rstrip_Cons:
  "py_rstrip (ch # chs) = (if \<forall>x \<in> set (ch # chs). py_isspace x then [] else ch # py_rstrip chs)"
  by (auto simp: py_rstrip_def dropWhile_append)

lemma lstrip_rstrip: "dropWhile py_isspace (py_rstrip s) = py_rstrip (dropWhile py_isspace s)"
proof (induction s)
  case Nil
  then show ?case by (simp add: py_rstrip_def)
next
  case (Cons ch chs)
  show ?case
  proof (cases "\<forall>x \<in> set (ch # chs). py_isspace x")
    case True
    have l: "py_rstrip (ch # chs) = []"
      using True by (simp add: py_rstrip_Cons)
    have r: "dropWhile py_isspace (ch # chs) = []"
      using True by simp
    show ?thesis
      unfolding l r by (simp add: py_rstrip_def)
  next
    case False
    then show ?thesis
      using Cons by (auto simp: py_rstrip_Cons)
  qed
qed

lemma py_strip_rstrip: "py_strip s = py_rstrip (dropWhile py_isspace s)"
  by (simp add: py_strip_def py_rstrip_def)

lemma py_rstrip_idem: "py_rstrip (py_rstrip s) = py_rstrip s"
  by (simp add: py_rstrip_def)

lemma py_strip_of_rstrip: "py_strip (py_rstrip s) = py_strip s"
  by (simp add: py_strip_rstrip lstrip_rstrip py_rstrip_idem)

lemma py_strip_idem: "py_strip (py_strip s) = py_strip s"
  by (simp add: py_strip_rstrip lstrip_rstrip py_rstrip_idem)

text \<open>The destination alternative reads the whole of a title that no other title cuts short.\<close>

lemma match_dest_whole:
  assumes "tb \<in> set ks" and "\<forall>k \<in> set ks. \<forall>r. tb \<noteq> k @ '')'' @ r"
  shows "match_dest ks (tb @ '')'') = Some []"
  using assms
proof (induction ks)
  case Nil
  then show ?case by simp
next
  case (Cons k ks)
  show ?case
  proof (cases "after_prefix (k @ '')'') (tb @ '')'')")
    case None
    then have "k \<noteq> tb"
      by (auto simp: after_prefix_None_iff)
    with None Cons show ?thesis by simp
  next
    case (Some rest)
    then have eq: "tb @ '')'' = k @ '')'' @ rest"
      by (simp add: after_prefix_iff)
    have "rest = []"
    proof (rule ccontr)
      assume "rest \<noteq> []"
      then obtain r where "rest = r @ '')''"
        using eq by (metis append_butlast_last_id last_appendR last_snoc not_Cons_self2 append_assoc)
      with eq have "tb = k @ '')'' @ r"
        by simp
      with Cons.prems(2) show False by simp
    qed
    with Some show ?thesis by simp
  qed
qed

lemma source_key_unique:
  assumes "CHR ''>'' \<notin> set k" "CHR ''>'' \<notin> set ta" "k @ '' -> '' @ r = ta @ '' -> '' @ r'"
  shows "k = ta"
proof -
  have "takeWhile (\<lambda>c. c \<noteq> CHR ''>'') (k @ '' -> '' @ r) = k @ '' -''"
    using assms(1) by (subst takeWhile_append2) auto
  moreover have "takeWhile (\<lambda>c. c \<noteq> CHR ''>'') (ta @ '' -> '' @ r') = ta @ '' -''"
    using assms(2) by (subst takeWhile_append2) auto
  ultimately show ?thesis
    using assms(3) by simp
qed

lemma match_source_whole:
  assumes "ta \<in> set ks" and "\<forall>k \<in> set ks. CHR ''>'' \<notin> set k"
    and "match_dest keys rest = Some out"
  shows "match_source keys ks (ta @ '' -> '' @ rest) = Some out"
  using assms(1,2)
proof (induction ks)
  case Nil
  then show ?case by simp
next
  case (Cons k ks)
  show ?case
  proof (cases "k = ta")
    case True
    have "after_prefix (ta @ '' -> '') (ta @ '' -> '' @ rest) = Some rest"
      by (simp add: after_prefix_iff)
    with True assms(3) show ?thesis by simp
  next
    case False
    have "after_prefix (k @ '' -> '') (ta @ '' -> '' @ rest) = None"
    proof (rule ccontr)
      assume "after_prefix (k @ '' -> '') (ta @ '' -> '' @ rest) \<noteq> None"
      then obtain r where "ta @ '' -> '' @ rest = k @ '' -> '' @ r"
        by (auto simp: after_prefix_iff)
      with Cons.prems have "k = ta"
        by (intro source_key_unique [of k ta r rest]) auto
      with False show False ..
    qed
    with False Cons show ?thesis by simp
  qed
qed

lemma space_is_space: "py_isspace (CHR '' '')"
  by (simp add: py_isspace_def)

lemma bracket_not_space: "\<not> py_isspace (CHR ''('')"
  by (simp add: py_isspace_def)

lemma match_annotation_blanks:
  assumes "\<forall>x \<in> set ws. py_isspace x"
  shows "match_annotation keys (ws @ CHR ''('' # ann) = match_source keys keys ann"
proof -
  have "dropWhile py_isspace (ws @ CHR ''('' # ann) = CHR ''('' # ann"
    using assms by (simp add: dropWhile_append bracket_not_space)
  then show ?thesis
    by (simp add: match_annotation_def)
qed

lemma annotation_free_suffix:
  "annotation_free keys (pre @ s) rest \<Longrightarrow> annotation_free keys s rest"
  by (induction pre) auto

lemma annotation_free_bracket:
  assumes "annotation_free keys (pre @ CHR ''('' # s) rest"
  shows "match_annotation keys (CHR ''('' # s @ rest) = None"
  using annotation_free_suffix [OF assms] by simp

lemma match_annotation_dropWhile:
  "match_annotation keys (dropWhile py_isspace s) = match_annotation keys s"
  by (simp add: match_annotation_def)

lemma match_annotation_free_body:
  assumes "annotation_free keys body rest" and "\<not> (\<forall>x \<in> set body. py_isspace x)"
  shows "match_annotation keys (body @ rest) = None"
proof -
  have d: "dropWhile py_isspace (body @ rest) = dropWhile py_isspace body @ rest"
    using assms(2) by (auto simp: dropWhile_append)
  from assms(2) obtain x xs where x: "dropWhile py_isspace body = x # xs"
    by (cases "dropWhile py_isspace body") auto
  have split: "body = takeWhile py_isspace body @ x # xs"
    using x by (metis takeWhile_dropWhile_id)
  have "match_annotation keys (x # xs @ rest) = None"
  proof (cases "x = CHR ''(''")
    case True
    from assms(1) split have "annotation_free keys (takeWhile py_isspace body @ CHR ''('' # xs) rest"
      using True by simp
    then show ?thesis
      using True by (simp add: annotation_free_bracket)
  next
    case False
    have "\<not> py_isspace x"
      using x by (metis hd_dropWhile list.sel(1) list.distinct(1))
    with False show ?thesis
      by (simp add: match_annotation_def)
  qed
  then show ?thesis
    using match_annotation_dropWhile [of keys "body @ rest"] d x by simp
qed

lemma re_sub_trailing:
  assumes "annotation_free keys body ('' ('' @ ann)" and "match_source keys keys ann = Some []"
  shows "re_sub_annotation keys (body @ '' ('' @ ann) = py_rstrip body"
  using assms(1)
proof (induction body)
  case Nil
  have "match_annotation keys ('' '' @ CHR ''('' # ann) = Some []"
    using assms(2) by (subst match_annotation_blanks) (simp_all add: space_is_space)
  then show ?case
    by (simp add: py_rstrip_def)
next
  case (Cons ch chs)
  show ?case
  proof (cases "\<forall>x \<in> set (ch # chs). py_isspace x")
    case True
    then have "match_annotation keys (((ch # chs) @ '' '') @ CHR ''('' # ann) = Some []"
      using assms(2) by (subst match_annotation_blanks) (auto simp: space_is_space)
    with True show ?thesis
      by (simp add: py_rstrip_Cons)
  next
    case False
    with Cons.prems have "match_annotation keys ((ch # chs) @ '' ('' @ ann) = None"
      by (intro match_annotation_free_body)
    moreover from Cons.prems have "annotation_free keys chs ('' ('' @ ann)"
      by simp
    ultimately show ?thesis
      using False Cons.IH by (simp add: py_rstrip_Cons)
  qed
qed

text \<open>What the matcher accepts is an annotation, and it accepts every annotation.\<close>

lemma match_dest_sound:
  "match_dest ks s = Some x \<Longrightarrow> \<exists>k \<in> set ks. \<exists>post. s = k @ '')'' @ post"
proof (induction ks)
  case Nil
  then show ?case by simp
next
  case (Cons k ks)
  show ?case
  proof (cases "after_prefix (k @ '')'') s")
    case None
    with Cons show ?thesis by auto
  next
    case (Some r)
    then have "s = k @ '')'' @ r"
      by (simp add: after_prefix_iff)
    then show ?thesis by auto
  qed
qed

lemma match_source_sound:
  "match_source keys ks s = Some x \<Longrightarrow>
     \<exists>k \<in> set ks. \<exists>k' \<in> set keys. \<exists>post. s = k @ '' -> '' @ k' @ '')'' @ post"
proof (induction ks)
  case Nil
  then show ?case by simp
next
  case (Cons k ks)
  show ?case
  proof (cases "after_prefix (k @ '' -> '') s")
    case None
    with Cons show ?thesis by auto
  next
    case (Some r)
    then have s: "s = k @ '' -> '' @ r"
      by (simp add: after_prefix_iff)
    show ?thesis
    proof (cases "match_dest keys r")
      case None
      with Some Cons show ?thesis by auto
    next
      case (Some y)
      then obtain k' post where "k' \<in> set keys" "r = k' @ '')'' @ post"
        using match_dest_sound by blast
      with s show ?thesis by auto
    qed
  qed
qed

lemma match_dest_complete:
  "k' \<in> set ks \<Longrightarrow> match_dest ks (k' @ '')'' @ post) \<noteq> None"
proof (induction ks)
  case Nil
  then show ?case by simp
next
  case (Cons k ks)
  show ?case
  proof (cases "after_prefix (k @ '')'') (k' @ '')'' @ post)")
    case None
    then have "k \<noteq> k'"
      by (auto simp: after_prefix_None_iff)
    with None Cons show ?thesis by simp
  next
    case (Some r)
    then show ?thesis by simp
  qed
qed

lemma match_source_complete:
  assumes "match_dest keys r \<noteq> None"
  shows "k \<in> set ks \<Longrightarrow> match_source keys ks (k @ '' -> '' @ r) \<noteq> None"
proof (induction ks)
  case Nil
  then show ?case by simp
next
  case (Cons h ks)
  show ?case
  proof (cases "h = k")
    case True
    have "after_prefix (k @ '' -> '') (k @ '' -> '' @ r) = Some r"
      by (simp add: after_prefix_iff)
    with True assms show ?thesis
      by (auto split: option.splits)
  next
    case False
    with Cons have "match_source keys ks (k @ '' -> '' @ r) \<noteq> None"
      by simp
    then show ?thesis
      by (auto split: option.splits)
  qed
qed

lemma annotation_matches:
  assumes "k \<in> set keys" and "k' \<in> set keys"
  shows "match_annotation keys (CHR ''('' # k @ '' -> '' @ k' @ '')'' @ post) \<noteq> None"
proof -
  have "match_dest keys (k' @ '')'' @ post) \<noteq> None"
    using assms(2) by (rule match_dest_complete)
  then have "match_source keys keys (k @ '' -> '' @ k' @ '')'' @ post) \<noteq> None"
    using assms(1) by (intro match_source_complete)
  then show ?thesis
    by (simp add: match_annotation_def bracket_not_space)
qed

lemma match_annotation_sound:
  assumes "match_annotation keys s = Some x"
  shows "\<exists>ws k k' post. k \<in> set keys \<and> k' \<in> set keys
           \<and> s = ws @ ''('' @ k @ '' -> '' @ k' @ '')'' @ post"
proof -
  from assms obtain chs where d: "dropWhile py_isspace s = CHR ''('' # chs"
      and m: "match_source keys keys chs = Some x"
    by (auto simp: match_annotation_def split: list.splits if_splits)
  from m obtain k k' post where "k \<in> set keys" "k' \<in> set keys"
      "chs = k @ '' -> '' @ k' @ '')'' @ post"
    using match_source_sound by blast
  moreover have "s = takeWhile py_isspace s @ CHR ''('' # chs"
    using d by (metis takeWhile_dropWhile_id)
  ultimately show ?thesis
    by auto
qed

lemma re_sub_fixed:
  assumes "\<forall>pre suf. s = pre @ suf \<longrightarrow> match_annotation keys suf = None"
  shows "re_sub_annotation keys s = s"
  using assms
proof (induction s)
  case Nil
  then show ?case by simp
next
  case (Cons ch chs)
  have "match_annotation keys (ch # chs) = None"
    using Cons.prems by (metis append_Nil)
  moreover have "\<forall>pre suf. chs = pre @ suf \<longrightarrow> match_annotation keys suf = None"
    using Cons.prems by (metis append_Cons)
  ultimately show ?case
    using Cons.IH by simp
qed

lemmas string_eval = py_lower_def py_upper_def py_title_def lower_char_def upper_char_def
  upper_letters_def lower_letters_def is_upper_def is_lower_def py_isspace_def py_strip_def

lemmas annotation_eval = strip_annotation_def annotation_keys_def match_annotation_def
  sample_languages_def

text \<open>
  C4 as stated fails. The alternatives are matched with their exact letters: an annotation
  in lower case stays. And the substitution removes every match in the text, not only a
  trailing one, so that a removal can put a new annotation together: the stripped text
  below still ends with one, and stripping it again changes it.
\<close>

theorem strip_annotation_counterexample:
  "strip_annotation sample_languages ''hola (english -> spanish)'' = ''hola (english -> spanish)''
   \<and> strip_annotation sample_languages ''ok (English -> Fre(English -> French)nch) (English -> French)''
       = ''ok (English -> French)''
   \<and> strip_annotation sample_languages ''ok (English -> French)'' = ''ok''"
  by (simp add: annotation_eval string_eval)

text \<open>
  C4, amended. Take a text made of a body, a blank, and the annotation of two display
  names of the table in title case, with their exact letters. Let the pattern match at
  no opening bracket of the body (\<open>annotation_free\<close>); let no title of the table contain
  \<open>>\<close>, and let no title followed by a closing bracket begin the destination's title.
  Then one application gives the body without its surrounding blanks; no annotation
  \<open>(K -> K')\<close> of titles of the table is left anywhere in it, at its end in particular;
  and a second application leaves that text as it is.
\<close>

theorem strip_annotation_idempotent:
  assumes "a \<in> fst ` set langs" and "b \<in> fst ` set langs"
    and "annotation_free (annotation_keys langs) body
           ('' ('' @ py_title a @ '' -> '' @ py_title b @ '')'')"
    and "\<forall>item \<in> set langs. CHR ''>'' \<notin> set (py_title (fst item))"
    and "\<forall>item \<in> set langs. \<forall>r. py_title b \<noteq> py_title (fst item) @ '')'' @ r"
  shows "strip_annotation langs (body @ '' ('' @ py_title a @ '' -> '' @ py_title b @ '')'')
           = py_strip body
       \<and> strip_annotation langs (py_strip body) = py_strip body
       \<and> (\<forall>pre k k' post. k \<in> set (annotation_keys langs) \<and> k' \<in> set (annotation_keys langs)
             \<longrightarrow> py_strip body \<noteq> pre @ ''('' @ k @ '' -> '' @ k' @ '')'' @ post)"
proof -
  let ?keys = "annotation_keys langs"
  let ?ann = "py_title a @ '' -> '' @ py_title b @ '')''"
  from assms(1) have keys: "?keys = map (\<lambda>item. py_title (fst item)) langs"
    by (auto simp: annotation_keys_def)
  have ta: "py_title a \<in> set ?keys" and tb: "py_title b \<in> set ?keys"
    using assms(1,2) unfolding keys by auto
  have "match_dest ?keys (py_title b @ '')'') = Some []"
    using tb assms(5) unfolding keys by (intro match_dest_whole) auto
  then have "match_source ?keys ?keys ?ann = Some []"
    using ta assms(4) unfolding keys by (intro match_source_whole) auto
  then have "re_sub_annotation ?keys (body @ '' ('' @ ?ann) = py_rstrip body"
    using assms(3) by (intro re_sub_trailing)
  then have 1: "strip_annotation langs (body @ '' ('' @ ?ann) = py_strip body"
    by (simp add: strip_annotation_def py_strip_of_rstrip)
  obtain lead trail where body: "body = lead @ py_strip body @ trail"
  proof -
    have "body = takeWhile py_isspace body @ dropWhile py_isspace body"
      by simp
    moreover have "dropWhile py_isspace body
        = py_strip body @ rev (takeWhile py_isspace (rev (dropWhile py_isspace body)))"
      unfolding py_strip_def
      by (metis rev_append rev_rev_ident takeWhile_dropWhile_id)
    ultimately show ?thesis
      using that by metis
  qed
  have 3: "py_strip body \<noteq> pre @ ''('' @ k @ '' -> '' @ k' @ '')'' @ post"
    if "k \<in> set ?keys" "k' \<in> set ?keys" for pre k k' post
  proof
    assume "py_strip body = pre @ ''('' @ k @ '' -> '' @ k' @ '')'' @ post"
    with body have "body = (lead @ pre) @ CHR ''('' # (k @ '' -> '' @ k' @ '')'' @ post @ trail)"
      by simp
    with assms(3) have "match_annotation ?keys
        (CHR ''('' # (k @ '' -> '' @ k' @ '')'' @ post @ trail) @ '' ('' @ ?ann) = None"
      using annotation_free_bracket by metis
    moreover have "match_annotation ?keys
        (CHR ''('' # k @ '' -> '' @ k' @ '')'' @ (post @ trail @ '' ('' @ ?ann)) \<noteq> None"
      using that by (rule annotation_matches)
    ultimately show False
      by simp
  qed
  have "match_annotation ?keys suf = None" if "py_strip body = pre @ suf" for pre suf
  proof (rule ccontr)
    assume "match_annotation ?keys suf \<noteq> None"
    then obtain x where "match_annotation ?keys suf = Some x"
      by auto
    then obtain ws k k' post where "k \<in> set ?keys" "k' \<in> set ?keys"
        "suf = ws @ ''('' @ k @ '' -> '' @ k' @ '')'' @ post"
      using match_annotation_sound by blast
    with that 3 [of k k' "pre @ ws" post] show False
      by simp
  qed
  then have "re_sub_annotation ?keys (py_strip body) = py_strip body"
    by (intro re_sub_fixed) blast
  then have 2: "strip_annotation langs (py_strip body) = py_strip body"
    by (simp add: strip_annotation_def py_strip_idem)
  from 1 2 3 show ?thesis
    by blast
qed

theorem strip_annotation_idempotent_witness:
  "strip_annotation sample_languages ''see you (maybe) (English -> Chinese (Simplified))''
     = ''see you (maybe)''
   \<and> strip_annotation sample_languages ''see you (maybe)'' = ''see you (maybe)''"
proof -
  have 1: "''english'' \<in> fst ` set sample_languages"
    by (simp add: sample_languages_def)
  have 2: "''chinese (simplified)'' \<in> fst ` set sample_languages"
    by (simp add: sample_languages_def)
  have 6: "py_title ''english'' = ''English''"
    "py_title ''chinese (simplified)'' = ''Chinese (Simplified)''"
    "py_strip ''see you (maybe)'' = ''see you (maybe)''"
    by (simp_all add: string_eval)
  have 3: "annotation_free (annotation_keys sample_languages) ''see you (maybe)''
      ('' ('' @ py_title ''english'' @ '' -> '' @ py_title ''chinese (simplified)'' @ '')'')"
    by (simp add: annotation_eval string_eval)
  have 4: "\<forall>item \<in> set sample_languages. CHR ''>'' \<notin> set (py_title (fst item))"
    by (simp add: sample_languages_def string_eval)
  have 5: "\<forall>item \<in> set sample_languages. \<forall>r.
             py_title ''chinese (simplified)'' \<noteq> py_title (fst item) @ '')'' @ r"
    by (simp add: sample_languages_def string_eval)
  from strip_annotation_idempotent [OF 1 2 3 4 5] show ?thesis
    unfolding 6 by simp
qed

section \<open>Properties of the translate command\<close>

lemmas t_eval = t_def t_command_def t_translate_def t_output_def t_except_def extract_content_def
  sample_env_def sample_ctx_def get_lang_code_def return_message_def MAX_MESSAGE_LENGTH_def

text \<open>
  C3 at a destination that does not resolve: the reply shows \<open>None\<close>, the value that
  \<open>dest_lang\<close> holds after the assignment, and not the word the user gave. Nothing is
  fetched, detected or translated.
\<close>

theorem t_invalid_language_reply:
  "t (sample_env ''es'' ''hello'') (sample_ctx ''hola'' 5) ''klingon''
     = Done [Reply (''Error: `None` is not a valid language.'' @ USAGE_ERROR)]"
  by (simp add: t_eval string_eval sample_languages_def)

lemma t_invalid_language_general:
  assumes "reference ctx = Some msg_id" and "get_lang_code (LANGUAGES env) dest_lang = None"
  shows "t env ctx dest_lang = Done [Reply (''Error: `None` is not a valid language.'' @ USAGE_ERROR)]"
  using assms by (simp add: t_def)

text \<open>
  C5. When the invocation reaches the detection and the detected code, with \<open>zh\<close> read
  as \<open>zh-CN\<close>, is not a value of the table, the handler fetches the message, calls the
  detection, replies with the source-language error that shows the code, and returns:
  no action of the run is a call of the translation service.
\<close>

theorem t_unsupported_source:
  assumes "reference ctx = Some msg_id"
    and "get_lang_code (LANGUAGES env) dest_lang = Some dest"
    and "fetch_message ctx msg_id = Inr msg"
    and "extract_content env msg \<noteq> []"
    and "single_detection env (extract_content env msg) = Inr detected"
    and "src_lang = (if detected = ''zh'' then ''zh-CN'' else detected)"
    and "src_lang \<notin> snd ` set (LANGUAGES env)"
  shows "t env ctx dest_lang =
           Done [FetchMessage msg_id, Detect (extract_content env msg),
                 Reply (''Error: `'' @ src_lang @ ''` is not a supported source language.''
                        @ [CHR 0x0A] @ USAGE_ERROR)]
       \<and> (\<forall>src dst payload. Translate src dst payload \<notin> set (actions_of (t env ctx dest_lang)))"
proof -
  have "t env ctx dest_lang =
           Done [FetchMessage msg_id, Detect (extract_content env msg),
                 Reply (''Error: `'' @ src_lang @ ''` is not a supported source language.''
                        @ [CHR 0x0A] @ USAGE_ERROR)]"
    using assms by (simp add: t_def t_translate_def Let_def)
  then show ?thesis
    by simp
qed

theorem t_unsupported_source_witness:
  "t (sample_env ''xx'' ''hello'') (sample_ctx ''hola'' 5) ''french'' =
     Done [FetchMessage 7, Detect ''hola'',
           Reply (''Error: `xx` is not a supported source language.'' @ [CHR 0x0A] @ USAGE_ERROR)]"
proof -
  let ?env = "sample_env ''xx'' ''hello''" and ?ctx = "sample_ctx ''hola'' 5"
  let ?msg = "\<lparr>content = ''hola'', author_id = 5\<rparr>"
  have x: "extract_content ?env ?msg = ''hola''"
    by (simp add: extract_content_def sample_env_def string_eval)
  have 1: "reference ?ctx = Some 7"
    by (simp add: sample_ctx_def)
  have 2: "get_lang_code (LANGUAGES ?env) ''french'' = Some ''fr''"
    by (simp add: get_lang_code_def sample_env_def sample_languages_def string_eval)
  have 3: "fetch_message ?ctx 7 = Inr ?msg"
    by (simp add: sample_ctx_def)
  have 4: "extract_content ?env ?msg \<noteq> []"
    by (simp add: x)
  have 5: "single_detection ?env (extract_content ?env ?msg) = Inr ''xx''"
    by (simp add: sample_env_def)
  have 6: "''xx'' = (if ''xx'' = ''zh'' then ''zh-CN'' else ''xx'')"
    by simp
  have 7: "''xx'' \<notin> snd ` set (LANGUAGES ?env)"
    by (simp add: sample_env_def sample_languages_def)
  from t_unsupported_source [OF 1 2 3 4 5 6 7] show ?thesis
    unfolding x by simp
qed

text \<open>
  Beyond C5, for every invocation: a call of the translation service has a source code
  that is a value of the table.
\<close>

lemma return_message_no_translate: "Translate src dst payload \<notin> set (return_message whole)"
proof -
  have "\<And>a. a \<in> set (send_chunks whole MAX_MESSAGE_LENGTH) \<Longrightarrow> a \<noteq> Translate src dst payload"
    using send_chunks_are_sends by blast
  then show ?thesis
    by (auto simp: return_message_def)
qed

lemma t_translate_known_source:
  assumes "Translate src dst payload \<in> set (actions_of (t_translate env done msg_content dest))"
    and "Translate src dst payload \<notin> set done"
  shows "src \<in> snd ` set (LANGUAGES env)"
  using assms return_message_no_translate
  by (auto simp: t_translate_def t_output_def t_except_def Let_def
      split: sum.splits if_splits option.splits)

lemma t_known_source:
  assumes "Translate src dst payload \<in> set (actions_of (t env ctx dest_lang))"
  shows "src \<in> snd ` set (LANGUAGES env)"
proof (cases "\<exists>msg_id msg_content dest.
    t env ctx dest_lang = t_translate env [FetchMessage msg_id] msg_content dest")
  case True
  then obtain msg_id msg_content dest where
    "t env ctx dest_lang = t_translate env [FetchMessage msg_id] msg_content dest"
    by blast
  with assms show ?thesis
    using t_translate_known_source [of src dst payload env "[FetchMessage msg_id]" msg_content dest]
    by simp
next
  case False
  with assms show ?thesis
    by (auto simp: t_def t_except_def Let_def split: option.splits sum.splits if_splits)
qed

text \<open>
  C10. Without a language argument the command runs as with \<open>en\<close>: the same result in
  every setting, and on the sample setting a translation to the code \<open>en\<close>.
\<close>

theorem t_default_destination:
  "t_command env ctx None = t_command env ctx (Some ''en'')
   \<and> t_command env ctx None = t env ctx ''en''
   \<and> t_command (sample_env ''es'' ''hello'') (sample_ctx ''hola'' 5) None
       = Done [FetchMessage 7, Detect ''hola'', Translate ''es'' ''en'' ''hola'',
               Reply ''**hello** (Spanish -> English)'']"
proof -
  have "t (sample_env ''es'' ''hello'') (sample_ctx ''hola'' 5) ''en''
       = Done [FetchMessage 7, Detect ''hola'', Translate ''es'' ''en'' ''hola'',
               Reply ''**hello** (Spanish -> English)'']"
    by (simp add: t_eval string_eval sample_languages_def send_chunks.simps Let_def)
  then show ?thesis
    by (simp add: t_command_def)
qed

section \<open>Properties of the listing command\<close>

lemma pages_count_step:
  fixes d :: nat
  assumes "0 < d"
  shows "Suc ((d - 20 + 19) div 20) = (d + 19) div 20"
proof (cases "20 \<le> d")
  case True
  then have "d + 19 = (d - 20 + 19) + 20"
    by simp
  then have "(d + 19) div 20 = (d - 20 + 19) div 20 + 1"
    by (metis div_add_self2 zero_neq_numeral)
  then show ?thesis
    by simp
next
  case False
  with assms have "20 \<le> d + 19" and "d + 19 < 2 * 20"
    by simp_all
  then have "(d + 19) div 20 = 1"
    by (intro div_nat_eqI) simp_all
  with False show ?thesis
    by simp
qed

lemma length_build_pages:
  "length (build_pages langs i) = (length langs - i + 19) div 20"
proof (induction langs i rule: build_pages.induct)
  case (1 languages i)
  show ?case
  proof (cases "i < length languages")
    case True
    then have "length (build_pages languages i) = Suc (length (build_pages languages (i + 20)))"
      by (subst build_pages.simps) (simp add: per_page_def)
    also have "\<dots> = Suc ((length languages - (i + 20) + 19) div 20)"
      using 1 [OF True] by (simp only: per_page_def)
    also have "\<dots> = Suc ((length languages - i - 20 + 19) div 20)"
      by simp
    also have "\<dots> = (length languages - i + 19) div 20"
      using True by (intro pages_count_step) simp
    finally show ?thesis .
  next
    case False
    then show ?thesis
      by (subst build_pages.simps) simp
  qed
qed

lemma navigate_accepted_only:
  "navigate pages author message_id cur evs
     = navigate pages author message_id cur (filter (check author message_id) evs)"
  by (induction evs arbitrary: cur) (simp_all add: Let_def)

lemma net_moves_Cons:
  "net_moves (ev # evs) =
     (if ev_emoji ev = Forward then 1 else if ev_emoji ev = Back then - 1 else 0) + net_moves evs"
  by (simp add: net_moves_def)

lemma net_moves_Nil: "net_moves [] = 0"
  by (simp add: net_moves_def)

lemma navigate_accepted:
  assumes "\<forall>ev \<in> set evs. check author message_id ev"
  shows "fst (navigate pages author message_id cur evs) = cur + net_moves evs
       \<and> shown_pages (snd (navigate pages author message_id cur evs))
           = map (\<lambda>k. pages ! nat ((cur + net_moves (take (Suc k) evs)) mod int (length pages)))
               [0..<length evs]"
  using assms
proof (induction evs arbitrary: cur)
  case Nil
  then show ?case
    by (simp add: net_moves_Nil shown_pages_def)
next
  case (Cons ev evs)
  let ?cur = "cur + (if ev_emoji ev = Forward then 1 else if ev_emoji ev = Back then - 1 else 0)"
  from Cons.prems have ok: "check author message_id ev" and rest: "\<forall>ev \<in> set evs. check author message_id ev"
    by simp_all
  note IH = Cons.IH [OF rest, of ?cur]
  have step: "navigate pages author message_id cur (ev # evs)
      = (fst (navigate pages author message_id ?cur evs),
         Edit (pages ! nat (?cur mod int (length pages))) # RemoveReaction (ev_emoji ev) (ev_user ev)
           # snd (navigate pages author message_id ?cur evs))"
    using ok by (auto simp: Let_def split: prod.splits)
  have 1: "fst (navigate pages author message_id cur (ev # evs)) = cur + net_moves (ev # evs)"
    unfolding step using IH by (simp add: net_moves_Cons)
  have 2: "shown_pages (snd (navigate pages author message_id cur (ev # evs)))
      = pages ! nat (?cur mod int (length pages))
          # map (\<lambda>k. pages ! nat ((?cur + net_moves (take (Suc k) evs)) mod int (length pages)))
              [0..<length evs]"
    unfolding step using IH by (simp add: shown_pages_def)
  have upt: "[0..<length (ev # evs)] = 0 # map Suc [0..<length evs]"
    by (simp add: upt_conv_Cons map_Suc_upt del: upt_Suc)
  have 3: "map (\<lambda>k. pages ! nat ((cur + net_moves (take (Suc k) (ev # evs))) mod int (length pages)))
               [0..<length (ev # evs)]
      = pages ! nat (?cur mod int (length pages))
          # map (\<lambda>k. pages ! nat ((?cur + net_moves (take (Suc k) evs)) mod int (length pages)))
              [0..<length evs]"
    unfolding upt by (simp add: net_moves_Cons net_moves_Nil add.assoc comp_def)
  show ?case
  proof (intro conjI)
    show "fst (navigate pages author message_id cur (ev # evs)) = cur + net_moves (ev # evs)"
      by (rule 1)
    show "shown_pages (snd (navigate pages author message_id cur (ev # evs)))
      = map (\<lambda>k. pages ! nat ((cur + net_moves (take (Suc k) (ev # evs))) mod int (length pages)))
               [0..<length (ev # evs)]"
      by (simp only: 2 3)
  qed
qed

text \<open>
  C6. In a listing with at least two pages, let \<open>accepted\<close> be the events that pass
  \<open>check\<close>. The pages that the command shows by editing its message are, activation after
  activation, \<open>pages[(next - previous) mod len(pages)]\<close>, counted over the accepted events
  so far; each such index is a page; and the cursor itself, after all of them, is
  \<open>next - previous\<close>, not reduced.
\<close>

theorem l_shows_cursor_modulo:
  assumes "pages = build_pages (LANGUAGES env) 0"
    and "2 \<le> length pages"
    and "accepted = filter (check author message_id) events"
  shows "shown_pages (actions_of (l env author message_id events))
           = map (\<lambda>k. pages ! nat (net_moves (take (Suc k) accepted) mod int (length pages)))
               [0..<length accepted]
       \<and> (\<forall>k. nat (net_moves (take (Suc k) accepted) mod int (length pages)) < length pages)
       \<and> fst (navigate pages author message_id 0 events) = net_moves accepted"
proof -
  have acc: "\<forall>ev \<in> set accepted. check author message_id ev"
    by (simp add: assms(3))
  have nav: "navigate pages author message_id 0 events = navigate pages author message_id 0 accepted"
    unfolding assms(3) by (rule navigate_accepted_only)
  from assms(2) obtain p ps where pages: "pages = p # ps" and ps: "ps \<noteq> []"
    by (cases pages; cases "tl pages") auto
  have "actions_of (l env author message_id events)
      = [Reply p, AddReaction Back, AddReaction Forward]
          @ snd (navigate pages author message_id 0 accepted)"
    using ps pages nav unfolding l_def assms(1) [symmetric] Let_def by simp
  then have 1: "shown_pages (actions_of (l env author message_id events))
           = map (\<lambda>k. pages ! nat (net_moves (take (Suc k) accepted) mod int (length pages)))
               [0..<length accepted]"
    using navigate_accepted [OF acc, of pages 0] by (simp add: shown_pages_def)
  have 2: "nat (net_moves (take (Suc k) accepted) mod int (length pages)) < length pages" for k
  proof -
    have pos: "0 < int (length pages)"
      using assms(2) by linarith
    have "0 \<le> net_moves (take (Suc k) accepted) mod int (length pages)"
      using pos by (rule pos_mod_sign)
    moreover have "net_moves (take (Suc k) accepted) mod int (length pages) < int (length pages)"
      using pos by (rule pos_mod_bound)
    ultimately show ?thesis
      by linarith
  qed
  have 3: "fst (navigate pages author message_id 0 events) = net_moves accepted"
    unfolding nav using navigate_accepted [OF acc, of pages 0] by simp
  from 1 2 3 show ?thesis
    by blast
qed

theorem l_shows_cursor_modulo_witness:
  "shown_pages (actions_of (l many_env 1 9
       [press Forward, press Forward, (press Back)\<lparr>ev_user := 2\<rparr>, press Forward,
        press (OtherEmoji ''x''), press Back, press Back]))
     = [build_pages many_languages 0 ! 1, build_pages many_languages 0 ! 2,
        build_pages many_languages 0 ! 0, build_pages many_languages 0 ! 2,
        build_pages many_languages 0 ! 1]
   \<and> fst (navigate (build_pages many_languages 0) 1 9 0
       [press Forward, press Forward, (press Back)\<lparr>ev_user := 2\<rparr>, press Forward,
        press (OtherEmoji ''x''), press Back, press Back]) = 1"
proof -
  let ?events = "[press Forward, press Forward, (press Back)\<lparr>ev_user := 2\<rparr>, press Forward,
        press (OtherEmoji ''x''), press Back, press Back]"
  let ?accepted = "[press Forward, press Forward, press Forward, press Back, press Back]"
  have n: "length (build_pages many_languages 0) = 3"
    by (simp add: length_build_pages many_languages_def)
  have 1: "build_pages many_languages 0 = build_pages (LANGUAGES many_env) 0"
    by (simp add: many_env_def)
  have 2: "2 \<le> length (build_pages many_languages 0)"
    by (simp add: n)
  have 3: "?accepted = filter (check 1 9) ?events"
    by (simp add: check_def press_def)
  have moves: "net_moves (take (Suc 0) ?accepted) = 1" "net_moves (take (Suc 1) ?accepted) = 2"
    "net_moves (take (Suc 2) ?accepted) = 3" "net_moves (take (Suc 3) ?accepted) = 2"
    "net_moves (take (Suc 4) ?accepted) = 1" "net_moves ?accepted = 1"
    by (simp_all add: net_moves_def press_def)
  have idx: "[0..<length ?accepted] = [0, 1, 2, 3, 4]"
    by (simp add: upt_rec)
  from l_shows_cursor_modulo [OF 1 2 3] show ?thesis
    unfolding idx n list.map moves by simp
qed

section \<open>Properties of the calculate command\<close>

text \<open>
  C1 at a name that is no function or constant of the calculator: \<open>eval\<close> finds the
  module constant and the handler replies with its value. The same lookup reaches every
  name of the module and every built-in function.
\<close>

theorem c_resolves_module_constant:
  "c (sample_env ''es'' ''hello'') [''MAX_MESSAGE_LENGTH''] = Done [Reply ''Total: **2000**'']"
  by code_simp

lemma lookup_name_print: "lookup_name env eq ''print'' = Value (PCallable ''print'')"
  by (simp add: lookup_name_def c_locals_def module_globals_def builtin_functions_def)

lemma lookup_name_bot_id: "lookup_name env eq ''ID'' = Value (PInt (ID env))"
  by (simp add: lookup_name_def c_locals_def module_globals_def)

text \<open>
  C2 at \<open>foo(1)\<close>: \<open>eval\<close> raises \<open>NameError\<close>, the clause for it raises
  \<open>AttributeError\<close>, and that exception leaves the handler before any reply.
\<close>

theorem c_unknown_function_escapes:
  "py_eval (sample_env ''es'' ''hello'') ''foo(1)''
     = Raise (PyExc NameError (''name '' @ [CHR 0x27] @ ''foo'' @ [CHR 0x27] @ '' is not defined''))
   \<and> c (sample_env ''es'' ''hello'') [''foo(1)''] = Escaped [] (no_attribute ''NameError'' ''split'')"
  by code_simp

lemma c_name_error_escapes:
  assumes "replace_caret (py_join '' '' equation) \<noteq> []"
    and "py_eval env (replace_caret (py_join '' '' equation)) = Raise (PyExc NameError m)"
  shows "c env equation = Escaped [] (no_attribute ''NameError'' ''split'')"
  using assms by (simp add: c_def c_except_def)

lemma c_examples:
  "c (sample_env ''es'' ''hello'') [''2^10''] = Done [Reply ''Total: **1024**'']"
  "c (sample_env ''es'' ''hello'') [''sqrt(-1)''] = Done [Reply ''Undefined'']"
  "c (sample_env ''es'' ''hello'') [] = Done [Reply (''Error: No Equation Found.'' @ [CHR 0x0A] @ c_usage)]"
  by code_simp+

end
